theory Spec2Isabelle
  imports Main
begin

section \<open>Shared notions\<close>

text \<open>
  Elements of the page are identified by natural numbers.  A notification is the
  \<^verbatim>\<open>CustomEvent\<close> handed to \<^verbatim>\<open>root.dispatchEvent\<close>: its name, its
  \<^verbatim>\<open>bubbles\<close> flag (false unless the init dictionary sets it) and its
  \<^verbatim>\<open>detail\<close> (absent unless the init dictionary sets it).
\<close>

record custom_event =
  ev_name :: string
  ev_bubbles :: bool
  ev_detail :: "nat option"

text \<open>A failed property access on \<^verbatim>\<open>undefined\<close> or \<^verbatim>\<open>null\<close>.\<close>

datatype error = TypeError

text \<open>
  Modelled from the spec: the module \<^verbatim>\<open>./key-codes\<close> imported as \<^verbatim>\<open>KEYS\<close> is
  not among the sources.  The constants below are the standard DOM key codes; the
  built dialog inlines \<^verbatim>\<open>esc = 27\<close> from the same module.
\<close>

definition KEYS_enter :: nat where "KEYS_enter = 13"
definition KEYS_esc :: nat where "KEYS_esc = 27"
definition KEYS_space :: nat where "KEYS_space = 32"
definition KEYS_end :: nat where "KEYS_end = 35"
definition KEYS_home :: nat where "KEYS_home = 36"
definition KEYS_left :: nat where "KEYS_left = 37"
definition KEYS_up :: nat where "KEYS_up = 38"
definition KEYS_right :: nat where "KEYS_right = 39"
definition KEYS_down :: nat where "KEYS_down = 40"

lemmas KEYS_defs = KEYS_enter_def KEYS_esc_def KEYS_space_def KEYS_end_def KEYS_home_def
  KEYS_left_def KEYS_up_def KEYS_right_def KEYS_down_def

section \<open>The accordion\<close>

subsection \<open>State\<close>

text \<open>
  A heading carries the attributes the controller writes: \<^verbatim>\<open>aria-expanded\<close>,
  \<^verbatim>\<open>aria-selected\<close> (only ever written as \<^verbatim>\<open>true\<close> or \<^verbatim>\<open>false\<close>) and
  \<^verbatim>\<open>tabindex\<close>.  A panel carries \<^verbatim>\<open>aria-hidden\<close>.  The i-th heading controls the
  panel whose generated id has the same number, which is the i-th panel.
\<close>

record tab =
  aria_expanded :: bool
  aria_selected :: bool
  tabindex :: int

record panel =
  aria_hidden :: bool

record options =
  expanded :: bool
  multiple :: bool
  wrapFocus :: bool

text \<open>Everything the controller does to the page, in the order it does it.\<close>

datatype effect =
    SetSelected nat bool
  | SetTabindex nat int
  | SetExpanded nat bool
  | SetHidden nat bool
  | Focus nat
  | PreventDefault
  | Dispatch custom_event

record accordion_state =
  OPTIONS :: options
  tabs :: "tab list"
  panels :: "panel list"
  currentTabIndex :: int
  currentTab :: "nat option"
  lastTabIndex :: int
  focused :: "nat option"
  trace :: "effect list"

definition notify :: "string \<Rightarrow> nat \<Rightarrow> effect" where
  "notify name el = Dispatch \<lparr>ev_name = name, ev_bubbles = True, ev_detail = Some el\<rparr>"

subsection \<open>Enhancement\<close>

text \<open>
  \<^verbatim>\<open>accordion(element, shadowRoot)\<close> over a container with \<open>n\<close> headings and
  \<open>m\<close> panels.  \<^verbatim>\<open>tabs[0]\<close> is \<^verbatim>\<open>undefined\<close> when there is no heading.
\<close>

definition accordion :: "options \<Rightarrow> nat \<Rightarrow> nat \<Rightarrow> accordion_state" where
  "accordion opts n m =
     \<lparr>OPTIONS = opts,
      tabs = map (\<lambda>i. \<lparr>aria_expanded = (if expanded opts then True else False),
                        aria_selected = (if i = 0 then True else False),
                        tabindex = (if i = 0 then 0 else - 1)\<rparr>) [0..<n],
      panels = replicate m \<lparr>aria_hidden = (if expanded opts then False else True)\<rparr>,
      currentTabIndex = 0,
      currentTab = (if n = 0 then None else Some 0),
      lastTabIndex = int n - 1,
      focused = None,
      trace = []\<rparr>"

subsection \<open>updateFocusState\<close>

definition updateFocusState :: "accordion_state \<Rightarrow> error + accordion_state" where
  "updateFocusState s =
     (case currentTab s of
        None \<Rightarrow> Inl TypeError
      | Some c \<Rightarrow>
          let s1 = s\<lparr>tabs := (tabs s)[c := (tabs s ! c)\<lparr>aria_selected := False, tabindex := - 1\<rparr>],
                     trace := trace s @ [SetSelected c False, SetTabindex c (- 1),
                                         notify ''accordion-blurred'' c]\<rparr>
          in if 0 \<le> currentTabIndex s1 \<and> currentTabIndex s1 < int (length (tabs s1)) then
               let n = nat (currentTabIndex s1) in
               Inr (s1\<lparr>currentTab := Some n,
                       tabs := (tabs s1)[n := (tabs s1 ! n)\<lparr>aria_selected := True, tabindex := 0\<rparr>],
                       focused := Some n,
                       trace := trace s1 @ [SetSelected n True, SetTabindex n 0, Focus n,
                                            notify ''accordion-focused'' n]\<rparr>)
             else Inl TypeError)"

subsection \<open>toggleTabPanel\<close>

text \<open>
  \<^verbatim>\<open>root.querySelector('[aria-expanded="true"]')\<close>: the first heading in document
  order whose panel is open.
\<close>

fun firstExpanded :: "tab list \<Rightarrow> nat option" where
  "firstExpanded [] = None"
| "firstExpanded (x # xs) =
     (if aria_expanded x then Some 0 else map_option Suc (firstExpanded xs))"

definition openTab :: "accordion_state \<Rightarrow> nat \<Rightarrow> error + accordion_state" where
  "openTab s t =
     (if length (panels s) \<le> t then Inl TypeError
      else Inr (s\<lparr>tabs := (tabs s)[t := (tabs s ! t)\<lparr>aria_expanded := True\<rparr>],
                  panels := (panels s)[t := (panels s ! t)\<lparr>aria_hidden := False\<rparr>],
                  trace := trace s @ [SetExpanded t True, SetHidden t False,
                                      notify ''accordion-expanded'' t]\<rparr>))"

definition closeTab :: "accordion_state \<Rightarrow> nat \<Rightarrow> error + accordion_state" where
  "closeTab s t =
     (if length (panels s) \<le> t then Inl TypeError
      else Inr (s\<lparr>tabs := (tabs s)[t := (tabs s ! t)\<lparr>aria_expanded := False\<rparr>],
                  panels := (panels s)[t := (panels s ! t)\<lparr>aria_hidden := True\<rparr>],
                  trace := trace s @ [SetExpanded t False, SetHidden t True,
                                      notify ''accordion-collapsed'' t]\<rparr>))"

function toggleTabPanel :: "accordion_state \<Rightarrow> nat \<Rightarrow> error + accordion_state" where
  "toggleTabPanel s t =
     (if length (tabs s) \<le> t then Inl TypeError
      else if \<not> aria_expanded (tabs s ! t) then
        (case (if \<not> multiple (OPTIONS s) then
                 (case firstExpanded (tabs s) of
                    None \<Rightarrow> Inr s
                  | Some openPanel \<Rightarrow> toggleTabPanel s openPanel)
               else Inr s) of
           Inl e \<Rightarrow> Inl e
         | Inr s1 \<Rightarrow> openTab s1 t)
      else closeTab s t)"
  by pat_completeness auto
termination
proof (relation "measure (\<lambda>(s, t). if t < length (tabs s) \<and> aria_expanded (tabs s ! t) then 0 else 1)")
  show "wf (measure (\<lambda>(s, t). if t < length (tabs s) \<and> aria_expanded (tabs s ! t) then 0 else (1::nat)))"
    by simp
next
  fix s :: accordion_state and t x2 :: nat
  assume closed: "\<not> aria_expanded (tabs s ! t)" and inb: "\<not> length (tabs s) \<le> t"
    and fe: "firstExpanded (tabs s) = Some x2"
  have "j < length xs \<and> aria_expanded (xs ! j)" if "firstExpanded xs = Some j" for xs j
    using that by (induction xs arbitrary: j) (auto split: if_splits)
  from this [OF fe] closed inb
  show "((s, x2), (s, t)) \<in> measure (\<lambda>(s, t). if t < length (tabs s) \<and> aria_expanded (tabs s ! t) then 0 else 1)"
    by simp
qed

subsection \<open>Event handlers\<close>

text \<open>
  The target of an event inside the accordion's root: one of the headings collected
  in \<^verbatim>\<open>tabs\<close> at enhancement time, an element with \<^verbatim>\<open>role="tab"\<close> that is not in
  \<^verbatim>\<open>tabs\<close>, or an element without that role.
\<close>

datatype target = Heading nat | ForeignTab | Other

definition role_is_tab :: "target \<Rightarrow> bool" where
  "role_is_tab tg = (case tg of Other \<Rightarrow> False | _ \<Rightarrow> True)"

text \<open>\<^verbatim>\<open>tabs.indexOf(e.target)\<close>, which is \<open>-1\<close> for an element not in the array.\<close>

definition indexOf_tabs :: "accordion_state \<Rightarrow> target \<Rightarrow> int" where
  "indexOf_tabs s tg =
     (case tg of Heading i \<Rightarrow> (if i < length (tabs s) then int i else - 1) | _ \<Rightarrow> - 1)"

definition preventDefault :: "accordion_state \<Rightarrow> accordion_state" where
  "preventDefault s = s\<lparr>trace := trace s @ [PreventDefault]\<rparr>"

definition keydown :: "accordion_state \<Rightarrow> target \<Rightarrow> nat \<Rightarrow> error + accordion_state" where
  "keydown s tg which =
     (if role_is_tab tg then
        if which = KEYS_left \<or> which = KEYS_up then
          let s1 = preventDefault s;
              s2 = (if wrapFocus (OPTIONS s1)
                    then s1\<lparr>currentTabIndex := (if currentTabIndex s1 = 0 then lastTabIndex s1
                                                  else currentTabIndex s1 - 1)\<rparr>
                    else s1\<lparr>currentTabIndex := (if currentTabIndex s1 = 0 then 0
                                                  else currentTabIndex s1 - 1)\<rparr>)
          in updateFocusState s2
        else if which = KEYS_right \<or> which = KEYS_down then
          let s1 = preventDefault s;
              s2 = (if wrapFocus (OPTIONS s1)
                    then s1\<lparr>currentTabIndex := (if currentTabIndex s1 = lastTabIndex s1 then 0
                                                  else currentTabIndex s1 + 1)\<rparr>
                    else s1\<lparr>currentTabIndex := (if currentTabIndex s1 = lastTabIndex s1
                                                  then lastTabIndex s1
                                                  else currentTabIndex s1 + 1)\<rparr>)
          in updateFocusState s2
        else if which = KEYS_end then
          let s1 = preventDefault s
          in updateFocusState (s1\<lparr>currentTabIndex := lastTabIndex s1\<rparr>)
        else if which = KEYS_home then
          updateFocusState (s\<lparr>currentTabIndex := 0\<rparr>)
        else if which = KEYS_enter \<or> which = KEYS_space then
          let s1 = preventDefault s
          in (case currentTab s1 of None \<Rightarrow> Inl TypeError | Some c \<Rightarrow> toggleTabPanel s1 c)
        else Inr s
      else Inr s)"

definition mousedown :: "accordion_state \<Rightarrow> target \<Rightarrow> error + accordion_state" where
  "mousedown s tg =
     (if role_is_tab tg then
        (case updateFocusState (s\<lparr>currentTabIndex := indexOf_tabs s tg\<rparr>) of
           Inl e \<Rightarrow> Inl e
         | Inr s1 \<Rightarrow>
             (case currentTab s1 of None \<Rightarrow> Inl TypeError | Some c \<Rightarrow> toggleTabPanel s1 c))
      else Inr s)"

datatype event = Keydown target nat | Mousedown target

fun handle :: "accordion_state \<Rightarrow> event \<Rightarrow> error + accordion_state" where
  "handle s (Keydown tg which) = keydown s tg which"
| "handle s (Mousedown tg) = mousedown s tg"

fun run :: "accordion_state \<Rightarrow> event list \<Rightarrow> error + accordion_state" where
  "run s [] = Inr s"
| "run s (e # es) = (case handle s e of Inl err \<Rightarrow> Inl err | Inr s' \<Rightarrow> run s' es)"

subsection \<open>Properties of an accordion state\<close>

definition expandedCount :: "accordion_state \<Rightarrow> nat" where
  "expandedCount s = length (filter aria_expanded (tabs s))"

text \<open>The single tab stop: heading \<open>i\<close> has tabindex 0 exactly when \<open>i\<close> is the current index.\<close>

definition rovingOK :: "accordion_state \<Rightarrow> bool" where
  "rovingOK s =
     (map tabindex (tabs s) =
        map (\<lambda>i. if int i = currentTabIndex s then 0 else - 1) [0..<length (tabs s)]
      \<and> 0 \<le> currentTabIndex s \<and> currentTabIndex s < int (length (tabs s)))"

text \<open>Events aimed at the accordion's own headings, or at elements that are no heading.\<close>

fun ownTarget :: "nat \<Rightarrow> event \<Rightarrow> bool" where
  "ownTarget n (Keydown (Heading i) w) = (i < n)"
| "ownTarget n (Mousedown (Heading i)) = (i < n)"
| "ownTarget n (Keydown Other w) = True"
| "ownTarget n (Mousedown Other) = True"
| "ownTarget n (Keydown ForeignTab w) = False"
| "ownTarget n (Mousedown ForeignTab) = False"

section \<open>Events on the document\<close>

text \<open>
  An event seen by a listener on \<^verbatim>\<open>document\<close>: its type, \<^verbatim>\<open>e.which\<close>, its target
  and the chain of \<^verbatim>\<open>parentElement\<close>s above the target, nearest first.  The chain is
  finite because the document is a tree, and it is empty for a target without parent
  element.
\<close>

record dom_event =
  e_type :: string
  e_which :: nat
  e_target :: nat
  e_ancestors :: "nat list"

text \<open>
  The walk both dialogs make from the event target: up the parent chain until the
  dialog is met or the chain ends.  \<open>ancestorWalk d el ps\<close> is the element the loop
  stops at, from \<open>el\<close> with parents \<open>ps\<close>.
\<close>

fun ancestorWalk :: "nat \<Rightarrow> nat \<Rightarrow> nat list \<Rightarrow> nat" where
  "ancestorWalk d el [] = el"
| "ancestorWalk d el (p # ps) = (if el = d then el else ancestorWalk d p ps)"

section \<open>The dialog with inert siblings\<close>

subsection \<open>State\<close>

record child =
  el_id :: nat
  el_inert :: bool

text \<open>
  The container element handed to \<^verbatim>\<open>dialog(element, shadowRoot)\<close>: the attributes it
  carries, the root, the element with \<^verbatim>\<open>role="dialog"\<close> (if any), whether that
  element has a heading, an \<^verbatim>\<open>open\<close> attribute, a descendant with \<^verbatim>\<open>autofocus\<close>.
\<close>

record container =
  has_modeless :: bool
  has_no_esc :: bool
  c_root :: child
  c_dialog :: "nat option"
  c_has_title :: bool
  c_has_open :: bool
  c_autofocus :: "nat option"

record page =
  page_children :: "child list"
  page_focusable :: "nat list"
  page_activeElement :: nat
  page_overflow :: string

record dialog_state =
  OPTIONS_modeless :: bool
  root :: nat
  dialog_el :: nat
  body_children :: "child list"
  body_overflow :: string
  open_attr :: bool
  click_listener :: bool
  keydown_listener :: bool
  autofocus_el :: "nat option"
  focusable :: "nat list"
  activeElement :: nat
  previousActiveElement :: "nat option"
  dispatched :: "custom_event list"

subsection \<open>Enhancement\<close>

text \<open>
  \<open>focusable\<close> lists the elements on which \<^verbatim>\<open>focus()\<close> has an effect; on any other
  element, such as the body (the active element when nothing has focus), the call does
  nothing.  \<^verbatim>\<open>dialog.setAttribute('tabindex', -1)\<close> makes the dialog one of them.
\<close>

text \<open>
  \<^verbatim>\<open>OPTIONS\<close> holds \<^verbatim>\<open>modeless\<close> only.  The root is appended to the body's children
  unless it is one already.  A dialog without heading makes \<^verbatim>\<open>title.hasAttribute\<close>
  fail.
\<close>

definition dialog :: "container \<Rightarrow> page \<Rightarrow> error + dialog_state" where
  "dialog c p =
     (case c_dialog c of
        None \<Rightarrow> Inl TypeError
      | Some d \<Rightarrow>
          if \<not> c_has_title c then Inl TypeError
          else Inr \<lparr>OPTIONS_modeless = has_modeless c,
                    root = el_id (c_root c),
                    dialog_el = d,
                    body_children =
                      (if el_id (c_root c) \<in> set (map el_id (page_children p))
                       then page_children p else page_children p @ [c_root c]),
                    body_overflow = page_overflow p,
                    open_attr = c_has_open c,
                    click_listener = False,
                    keydown_listener = False,
                    autofocus_el = c_autofocus c,
                    focusable = d # page_focusable p,
                    activeElement = page_activeElement p,
                    previousActiveElement = None,
                    dispatched = []\<rparr>)"

subsection \<open>open and close\<close>

definition setInert :: "nat \<Rightarrow> bool \<Rightarrow> child list \<Rightarrow> child list" where
  "setInert r b cs = map (\<lambda>ch. if el_id ch \<noteq> r then ch\<lparr>el_inert := b\<rparr> else ch) cs"

text \<open>\<^verbatim>\<open>el.focus()\<close>.\<close>

definition focus :: "dialog_state \<Rightarrow> nat \<Rightarrow> dialog_state" where
  "focus s el = (if el \<in> set (focusable s) then s\<lparr>activeElement := el\<rparr> else s)"

definition dialog_open :: "dialog_state \<Rightarrow> dialog_state" where
  "dialog_open s =
     (if open_attr s then s
      else
        let s1 = s\<lparr>previousActiveElement := Some (activeElement s)\<rparr>;
            s2 = (if \<not> OPTIONS_modeless s1
                  then s1\<lparr>body_overflow := ''hidden'',
                          body_children := setInert (root s1) True (body_children s1)\<rparr>
                  else s1);
            s3 = s2\<lparr>open_attr := True, click_listener := True, keydown_listener := True\<rparr>;
            s4 = (case autofocus_el s3 of
                    None \<Rightarrow> focus s3 (dialog_el s3)
                  | Some a \<Rightarrow> focus s3 a)
        in s4\<lparr>dispatched := dispatched s4 @
                 [\<lparr>ev_name = ''modal-opened'', ev_bubbles = False,
                   ev_detail = Some (dialog_el s4)\<rparr>]\<rparr>)"

definition dialog_close :: "dialog_state \<Rightarrow> error + dialog_state" where
  "dialog_close s =
     (if \<not> open_attr s then Inr s
      else
        let s1 = (if \<not> OPTIONS_modeless s
                  then s\<lparr>body_overflow := [],
                         body_children := setInert (root s) False (body_children s)\<rparr>
                  else s);
            s2 = s1\<lparr>open_attr := False, click_listener := False, keydown_listener := False\<rparr>
        in (case previousActiveElement s2 of
              None \<Rightarrow> Inl TypeError
            | Some prev \<Rightarrow>
                Inr ((focus s2 prev)\<lparr>previousActiveElement := None,
                        dispatched := dispatched s2 @
                          [\<lparr>ev_name = ''modal-closed'', ev_bubbles = False,
                            ev_detail = Some (dialog_el s2)\<rparr>]\<rparr>)))"

subsection \<open>checkCloseDialog\<close>

definition checkCloseDialog :: "dialog_state \<Rightarrow> dom_event \<Rightarrow> error + dialog_state" where
  "checkCloseDialog s e =
     (if e_type e = ''keydown'' \<and> e_which e = KEYS_esc then dialog_close s
      else
        let el = ancestorWalk (dialog_el s) (e_target e) (e_ancestors e)
        in if el \<noteq> dialog_el s then dialog_close s else Inr s)"

text \<open>The document delivers an event to the listeners registered for its type.\<close>

definition document_dispatch :: "dialog_state \<Rightarrow> dom_event \<Rightarrow> error + dialog_state" where
  "document_dispatch s e =
     (if e_type e = ''click'' \<and> click_listener s then checkCloseDialog s e
      else if e_type e = ''keydown'' \<and> keydown_listener s then checkCloseDialog s e
      else Inr s)"

section \<open>The built dialog with suppressed tab stops\<close>

subsection \<open>State\<close>

text \<open>
  A property that script code attaches to a node is \<^verbatim>\<open>undefined\<close> until written;
  \<^verbatim>\<open>getAttribute\<close> gives \<^verbatim>\<open>null\<close> or a string.
\<close>

datatype jsprop = Undefined | Null | Str string

fun truthy :: "jsprop \<Rightarrow> bool" where
  "truthy Undefined = False"
| "truthy Null = False"
| "truthy (Str v) = (v \<noteq> [])"

text \<open>
  The elements below \<^verbatim>\<open>body\<close> in document order; an element is identified by its
  position in this list, and a number beyond the list stands for the body or the
  document element.  \<open>native_focus\<close> says whether the element is focusable without a
  \<^verbatim>\<open>tabindex\<close> attribute (a button, a link, a form control).
\<close>

record node =
  native_focus :: bool
  role_dialog :: bool
  tabindex_attr :: "string option"
  prevTabindex :: jsprop
  outline :: string

datatype task = SuppressTask | RestoreTask

record build_state =
  b_modal :: bool
  b_dialog :: nat
  b_aria_hidden :: bool
  b_nodes :: "node list"
  b_modalNodes :: "nat list"
  b_nonModalNodes :: "nat list option"
  b_autofocusEls :: "(nat \<times> bool) list"
  b_lastFocusedElement :: "nat option"
  b_activeElement :: nat
  b_overflow :: string
  b_keydown_listener :: bool
  b_mousedown_listener :: bool
  b_timers :: "task list"
  b_dispatched :: "custom_event list"

subsection \<open>Enhancement\<close>

text \<open>
  The built \<^verbatim>\<open>dialog(element, shadowRoot)\<close> over a page with the given nodes: the
  dialog element \<open>d\<close> (one of the nodes) gets \<^verbatim>\<open>aria-hidden\<close>, \<^verbatim>\<open>tabindex="-1"\<close>
  and no outline;
  \<open>inside\<close> lists its descendants and \<open>autos\<close> those of them with \<^verbatim>\<open>autofocus\<close>,
  each with the answer of \<^verbatim>\<open>isVisible\<close>.
\<close>

definition build_dialog ::
  "bool \<Rightarrow> nat \<Rightarrow> node list \<Rightarrow> nat list \<Rightarrow> (nat \<times> bool) list \<Rightarrow> nat \<Rightarrow> string \<Rightarrow> build_state"
where
  "build_dialog has_modeless_attr d nodes inside autos active overflow =
     \<lparr>b_modal = (if has_modeless_attr then False else True),
      b_dialog = d,
      b_aria_hidden = True,
      b_nodes = nodes[d := (nodes ! d)\<lparr>tabindex_attr := Some ''-1'', outline := ''none''\<rparr>],
      b_modalNodes = inside,
      b_nonModalNodes = None,
      b_autofocusEls = autos,
      b_lastFocusedElement = None,
      b_activeElement = active,
      b_overflow = overflow,
      b_keydown_listener = False,
      b_mousedown_listener = False,
      b_timers = [],
      b_dispatched = []\<rparr>"

subsection \<open>Focus\<close>

text \<open>
  An element takes focus when it is focusable by itself or carries a \<^verbatim>\<open>tabindex\<close>
  attribute whose value parses as an integer: optional white space, an optional sign, a
  digit.  The body and the document element carry none.  \<^verbatim>\<open>focus()\<close> on any other
  element does nothing.
\<close>

definition isSpace :: "char \<Rightarrow> bool" where
  "isSpace c = (c \<in> set [CHR 0x20, CHR 0x09, CHR 0x0A, CHR 0x0C, CHR 0x0D])"

definition isDigit :: "char \<Rightarrow> bool" where
  "isDigit c = (c \<in> set ''0123456789'')"

definition parsesAsInteger :: "string \<Rightarrow> bool" where
  "parsesAsInteger v =
     (case dropWhile isSpace v of
        [] \<Rightarrow> False
      | c # cs \<Rightarrow>
          if c = CHR ''-'' \<or> c = CHR ''+''
          then (case cs of [] \<Rightarrow> False | d # ds \<Rightarrow> isDigit d)
          else isDigit c)"

definition canFocus :: "node list \<Rightarrow> nat \<Rightarrow> bool" where
  "canFocus ns el =
     (if el < length ns
      then (native_focus (ns ! el)
            \<or> (case tabindex_attr (ns ! el) of None \<Rightarrow> False | Some v \<Rightarrow> parsesAsInteger v))
      else False)"

definition build_focus :: "build_state \<Rightarrow> nat \<Rightarrow> build_state" where
  "build_focus s el = (if canFocus (b_nodes s) el then s\<lparr>b_activeElement := el\<rparr> else s)"

subsection \<open>show and close\<close>

definition build_show :: "build_state \<Rightarrow> build_state" where
  "build_show s =
     (if \<not> b_aria_hidden s then s
      else
        let s1 = s\<lparr>b_aria_hidden := False, b_lastFocusedElement := Some (b_activeElement s)\<rparr>;
            s2 = (case find snd (b_autofocusEls s1) of
                    Some af \<Rightarrow> build_focus s1 (fst af)
                  | None \<Rightarrow> build_focus s1 (b_dialog s1));
            s3 = (if b_modal s2
                  then s2\<lparr>b_overflow := ''hidden'', b_timers := b_timers s2 @ [SuppressTask]\<rparr>
                  else s2)
        in s3\<lparr>b_keydown_listener := True, b_mousedown_listener := True\<rparr>)"

definition build_close :: "build_state \<Rightarrow> error + build_state" where
  "build_close s =
     (if b_aria_hidden s then Inr s
      else
        let s1 = s\<lparr>b_aria_hidden := True\<rparr>;
            s2 = (if b_modal s1
                  then s1\<lparr>b_overflow := [], b_timers := b_timers s1 @ [RestoreTask]\<rparr>
                  else s1)
        in (case b_lastFocusedElement s2 of
              None \<Rightarrow> Inl TypeError
            | Some prev \<Rightarrow>
                Inr ((build_focus s2 prev)\<lparr>b_lastFocusedElement := None,
                        b_keydown_listener := False,
                        b_mousedown_listener := False\<rparr>)))"

subsection \<open>The deferred tasks\<close>

text \<open>
  \<^verbatim>\<open>document.querySelectorAll('body *:not([role="dialog"]):not([tabindex="-1"])')\<close>.
\<close>

definition selectNonModal :: "node list \<Rightarrow> nat list" where
  "selectNonModal ns =
     filter (\<lambda>i. \<not> role_dialog (ns ! i) \<and> tabindex_attr (ns ! i) \<noteq> Some ''-1'') [0..<length ns]"

definition suppressNode :: "nat list \<Rightarrow> node list \<Rightarrow> nat \<Rightarrow> node list" where
  "suppressNode modalNodes ns i =
     (if i \<notin> set modalNodes
      then ns[i := (ns ! i)\<lparr>prevTabindex := (case tabindex_attr (ns ! i) of
                                               None \<Rightarrow> Null | Some v \<Rightarrow> Str v),
                            tabindex_attr := Some ''-1'',
                            outline := ''none''\<rparr>]
      else ns)"

definition restoreNode :: "node list \<Rightarrow> nat \<Rightarrow> node list" where
  "restoreNode ns i =
     (let n1 = (if truthy (prevTabindex (ns ! i))
                then (ns ! i)\<lparr>tabindex_attr := (case prevTabindex (ns ! i) of
                                                  Str v \<Rightarrow> Some v | _ \<Rightarrow> None),
                               prevTabindex := Null\<rparr>
                else (ns ! i)\<lparr>tabindex_attr := None\<rparr>)
      in ns[i := n1\<lparr>outline := []\<rparr>])"

fun runTask :: "task \<Rightarrow> build_state \<Rightarrow> error + build_state" where
  "runTask SuppressTask s =
     (let sel = selectNonModal (b_nodes s)
      in Inr (s\<lparr>b_nonModalNodes := Some sel,
                b_nodes := foldl (suppressNode (b_modalNodes s)) (b_nodes s) sel\<rparr>))"
| "runTask RestoreTask s =
     (case b_nonModalNodes s of
        None \<Rightarrow> Inl TypeError
      | Some sel \<Rightarrow> Inr (s\<lparr>b_nodes := foldl restoreNode (b_nodes s) sel\<rparr>))"

fun runTasks :: "task list \<Rightarrow> build_state \<Rightarrow> error + build_state" where
  "runTasks [] s = Inr s"
| "runTasks (t # ts) s = (case runTask t s of Inl err \<Rightarrow> Inl err | Inr s' \<Rightarrow> runTasks ts s')"

text \<open>The event loop reaches the pending timers and runs them oldest first.\<close>

definition runTimers :: "build_state \<Rightarrow> error + build_state" where
  "runTimers s = runTasks (b_timers s) (s\<lparr>b_timers := []\<rparr>)"

subsection \<open>The listeners\<close>

definition keydownHandler :: "build_state \<Rightarrow> dom_event \<Rightarrow> error + build_state" where
  "keydownHandler s e =
     (if e_which e = KEYS_esc
      then build_close (s\<lparr>b_dispatched := b_dispatched s @
                            [\<lparr>ev_name = ''dialog-closed'', ev_bubbles = False,
                              ev_detail = None\<rparr>]\<rparr>)
      else Inr s)"

text \<open>
  \<^verbatim>\<open>clickHandler\<close> changes nothing on the page; its result is whether it cancelled
  the event (\<^verbatim>\<open>preventDefault\<close> and \<^verbatim>\<open>stopPropagation\<close>).
\<close>

definition clickHandler :: "build_state \<Rightarrow> dom_event \<Rightarrow> bool" where
  "clickHandler s e =
     (if \<not> b_modal s then False
      else
        let el = ancestorWalk (b_dialog s) (e_target e) (e_ancestors e)
        in if el \<noteq> b_dialog s then True else False)"

definition build_dispatch :: "build_state \<Rightarrow> dom_event \<Rightarrow> error + build_state \<times> bool" where
  "build_dispatch s e =
     (if e_type e = ''keydown'' \<and> b_keydown_listener s then
        (case keydownHandler s e of Inl err \<Rightarrow> Inl err | Inr s' \<Rightarrow> Inr (s', False))
      else if e_type e = ''mousedown'' \<and> b_mousedown_listener s then Inr (s, clickHandler s e)
      else Inr (s, False))"

section \<open>Auxiliary notions for the proofs\<close>

subsection \<open>Accordion\<close>

text \<open>The index a previous (left/up) and a next (right/down) command compute.\<close>

definition previousIndex :: "accordion_state \<Rightarrow> int" where
  "previousIndex s =
     (if wrapFocus (OPTIONS s)
      then (if currentTabIndex s = 0 then lastTabIndex s else currentTabIndex s - 1)
      else (if currentTabIndex s = 0 then 0 else currentTabIndex s - 1))"

definition nextIndex :: "accordion_state \<Rightarrow> int" where
  "nextIndex s =
     (if wrapFocus (OPTIONS s)
      then (if currentTabIndex s = lastTabIndex s then 0 else currentTabIndex s + 1)
      else (if currentTabIndex s = lastTabIndex s then lastTabIndex s else currentTabIndex s + 1))"

text \<open>What \<^verbatim>\<open>toggleTabPanel\<close> leaves alone.\<close>

definition frame :: "accordion_state \<Rightarrow> accordion_state \<Rightarrow> bool" where
  "frame s s' = (map tabindex (tabs s') = map tabindex (tabs s)
     \<and> length (tabs s') = length (tabs s) \<and> length (panels s') = length (panels s)
     \<and> currentTabIndex s' = currentTabIndex s \<and> currentTab s' = currentTab s
     \<and> lastTabIndex s' = lastTabIndex s \<and> OPTIONS s' = OPTIONS s)"

text \<open>
  The state of an accordion with \<open>n\<close> headings between two events: the tab stop sits
  on the current index, and \<^verbatim>\<open>currentTab\<close> is the heading at that index.
\<close>

definition wellFormed :: "nat \<Rightarrow> accordion_state \<Rightarrow> bool" where
  "wellFormed n s = (length (tabs s) = n \<and> lastTabIndex s = int n - 1 \<and> rovingOK s
     \<and> currentTab s = Some (nat (currentTabIndex s)))"

text \<open>The number of headings that are a tab stop.\<close>

definition tabStops :: "accordion_state \<Rightarrow> nat" where
  "tabStops s = length (filter (\<lambda>t. tabindex t = 0) (tabs s))"

text \<open>The \<^verbatim>\<open>aria-expanded\<close> flags of the headings after a run, if it completed.\<close>

definition expandedFlags :: "error + accordion_state \<Rightarrow> bool list option" where
  "expandedFlags r = (case r of Inl e \<Rightarrow> None | Inr s \<Rightarrow> Some (map aria_expanded (tabs s)))"

subsection \<open>Dialogs\<close>


text \<open>Observations of an outcome: the inert flag of each child of the body, the open state,
  the active element, the \<^verbatim>\<open>tabindex\<close> attribute of each node.\<close>

definition inertFlags :: "error + dialog_state \<Rightarrow> (nat \<times> bool) list option" where
  "inertFlags r = (case r of Inl err \<Rightarrow> None
                   | Inr s \<Rightarrow> Some (map (\<lambda>ch. (el_id ch, el_inert ch)) (body_children s)))"


definition isOpen :: "error + dialog_state \<Rightarrow> bool option" where
  "isOpen r = (case r of Inl err \<Rightarrow> None | Inr s \<Rightarrow> Some (open_attr s))"

definition tabindexes :: "error + build_state \<Rightarrow> string option list option" where
  "tabindexes r = (case r of Inl err \<Rightarrow> None | Inr b \<Rightarrow> Some (map tabindex_attr (b_nodes b)))"

text \<open>Enhance a container, open the dialog, then deliver one event to the document.\<close>

definition enhanceOpenDispatch :: "container \<Rightarrow> page \<Rightarrow> dom_event \<Rightarrow> error + dialog_state" where
  "enhanceOpenDispatch c p e =
     (case dialog c p of Inl err \<Rightarrow> Inl err | Inr s \<Rightarrow> document_dispatch (dialog_open s) e)"

text \<open>
  The built dialog shown and closed again, the pending timers running after each call.
\<close>

definition showCloseCycle :: "build_state \<Rightarrow> error + build_state" where
  "showCloseCycle b =
     (case runTimers (build_show b) of
        Inl err \<Rightarrow> Inl err
      | Inr b1 \<Rightarrow> (case build_close b1 of Inl err \<Rightarrow> Inl err | Inr b2 \<Rightarrow> runTimers b2))"

text \<open>
  A page for the dialog with inert siblings: the body holds a sibling that is inert
  already (element 1) and the root (element 2) around the dialog (element 3); a modal
  dialog, closed.  Nothing has focus: the active element is the body (element 0), which
  is not focusable; the dialog and element 1 are.
\<close>

definition inertPage :: dialog_state where
  "inertPage =
     \<lparr>OPTIONS_modeless = False, root = 2, dialog_el = 3,
      body_children = [\<lparr>el_id = 1, el_inert = True\<rparr>, \<lparr>el_id = 2, el_inert = False\<rparr>],
      body_overflow = [], open_attr = False, click_listener = False, keydown_listener = False,
      autofocus_el = None, focusable = [3, 1], activeElement = 0,
      previousActiveElement = None, dispatched = []\<rparr>"

text \<open>
  A page enhanced by the built dialog, modal and hidden: three elements outside the dialog
  (without \<^verbatim>\<open>tabindex\<close>, with \<^verbatim>\<open>tabindex="0"\<close>, with \<^verbatim>\<open>tabindex="-1"\<close>), the
  dialog (element 3) and one descendant of it with \<^verbatim>\<open>tabindex="0"\<close>.
\<close>

definition builtPage :: build_state where
  "builtPage =
     build_dialog False 3
       [\<lparr>native_focus = False, role_dialog = False, tabindex_attr = None, prevTabindex = Undefined, outline = []\<rparr>,
        \<lparr>native_focus = False, role_dialog = False, tabindex_attr = Some ''0'', prevTabindex = Undefined, outline = []\<rparr>,
        \<lparr>native_focus = False, role_dialog = False, tabindex_attr = Some ''-1'', prevTabindex = Undefined, outline = []\<rparr>,
        \<lparr>native_focus = False, role_dialog = True, tabindex_attr = None, prevTabindex = Undefined, outline = []\<rparr>,
        \<lparr>native_focus = False, role_dialog = False, tabindex_attr = Some ''0'', prevTabindex = Undefined, outline = []\<rparr>]
       [4] [] 1 []"

section \<open>Accordion: lemmas\<close>

declare toggleTabPanel.simps [simp del]

lemma firstExpanded_Some:
  "firstExpanded xs = Some j \<Longrightarrow> j < length xs \<and> aria_expanded (xs ! j)"
  by (induction xs arbitrary: j) (auto split: if_splits)

lemma firstExpanded_None:
  "firstExpanded xs = None \<Longrightarrow> filter aria_expanded xs = []"
  by (induction xs) (auto split: if_splits)

lemma toggle_expanded:
  "t < length (tabs s) \<Longrightarrow> aria_expanded (tabs s ! t) \<Longrightarrow> toggleTabPanel s t = closeTab s t"
  by (subst toggleTabPanel.simps) simp

lemma toggleTabPanel_unfold:
  "toggleTabPanel s t =
     (if length (tabs s) \<le> t then Inl TypeError
      else if \<not> aria_expanded (tabs s ! t) then
        (case (if \<not> multiple (OPTIONS s) then
                 (case firstExpanded (tabs s) of
                    None \<Rightarrow> Inr s
                  | Some openPanel \<Rightarrow> closeTab s openPanel)
               else Inr s) of
           Inl e \<Rightarrow> Inl e
         | Inr s1 \<Rightarrow> openTab s1 t)
      else closeTab s t)"
  by (subst toggleTabPanel.simps)
     (auto split: option.splits dest!: firstExpanded_Some simp: toggle_expanded)

lemma map_update_same: "f y = f (xs ! i) \<Longrightarrow> map f (xs[i := y]) = map f xs"
proof (cases "i < length xs")
  case True
  then show ?thesis if "f y = f (xs ! i)" using that by (simp add: map_update list_update_same_conv)
next
  case False
  then have "xs[i := y] = xs" by (simp add: list_update_beyond)
  then show ?thesis by (simp only:)
qed

lemma filter_update_length:
  "i < length xs \<Longrightarrow>
   length (filter P (xs[i := y])) + (if P (xs ! i) then 1 else 0)
     = length (filter P xs) + (if P y then 1 else 0)"
proof (induction xs arbitrary: i)
  case Nil
  then show ?case by simp
next
  case (Cons a xs)
  show ?case
  proof (cases i)
    case 0
    then show ?thesis by simp
  next
    case (Suc k)
    with Cons.prems have "k < length xs" by simp
    from Cons.IH [OF this] Suc show ?thesis by simp
  qed
qed

lemma closeTab_frame: "closeTab s t = Inr s' \<Longrightarrow> frame s s'"
  by (auto simp: closeTab_def frame_def map_update_same split: if_splits)

lemma openTab_frame: "openTab s t = Inr s' \<Longrightarrow> frame s s'"
  by (auto simp: openTab_def frame_def map_update_same split: if_splits)

lemma frame_trans: "frame s s1 \<Longrightarrow> frame s1 s2 \<Longrightarrow> frame s s2"
  by (simp add: frame_def)

lemma toggle_frame: "toggleTabPanel s t = Inr s' \<Longrightarrow> frame s s'"
  unfolding toggleTabPanel_unfold
  by (auto split: if_splits option.splits sum.splits
      dest: closeTab_frame openTab_frame intro: frame_trans)

lemma closeTab_total: "t < length (panels s) \<Longrightarrow> \<exists>s'. closeTab s t = Inr s'"
  by (simp add: closeTab_def)

lemma openTab_total: "t < length (panels s) \<Longrightarrow> \<exists>s'. openTab s t = Inr s'"
  by (simp add: openTab_def)

lemma toggle_total:
  assumes "t < length (tabs s)" "length (tabs s) \<le> length (panels s)"
  shows "\<exists>s'. toggleTabPanel s t = Inr s'"
proof (cases "aria_expanded (tabs s ! t)")
  case True
  with assms show ?thesis by (simp add: toggleTabPanel_unfold closeTab_def)
next
  case False
  show ?thesis
  proof (cases "\<not> multiple (OPTIONS s) \<and> firstExpanded (tabs s) \<noteq> None")
    case True
    then obtain j where j: "firstExpanded (tabs s) = Some j" by auto
    with assms firstExpanded_Some [OF j] obtain s1 where s1: "closeTab s j = Inr s1"
      using closeTab_total [of j s] by auto
    from closeTab_frame [OF s1] assms have "t < length (panels s1)" by (simp add: frame_def)
    from openTab_total [OF this] s1 j True False assms show ?thesis
      by (simp add: toggleTabPanel_unfold)
  next
    case False
    with \<open>\<not> aria_expanded (tabs s ! t)\<close> assms openTab_total [of t s] show ?thesis
      by (auto simp: toggleTabPanel_unfold split: option.splits)
  qed
qed

lemma closeTab_count:
  "closeTab s t = Inr s' \<Longrightarrow> t < length (tabs s) \<Longrightarrow>
   expandedCount s' + (if aria_expanded (tabs s ! t) then 1 else 0) = expandedCount s"
  using filter_update_length [of t "tabs s" aria_expanded "(tabs s ! t)\<lparr>aria_expanded := False\<rparr>"]
  by (auto simp: closeTab_def expandedCount_def split: if_splits)

lemma openTab_count:
  "openTab s t = Inr s' \<Longrightarrow> t < length (tabs s) \<Longrightarrow>
   expandedCount s' + (if aria_expanded (tabs s ! t) then 1 else 0) = expandedCount s + 1"
  using filter_update_length [of t "tabs s" aria_expanded "(tabs s ! t)\<lparr>aria_expanded := True\<rparr>"]
  by (auto simp: openTab_def expandedCount_def split: if_splits)

lemma toggle_count:
  assumes "toggleTabPanel s t = Inr s'" "\<not> multiple (OPTIONS s)" "expandedCount s \<le> 1"
  shows "expandedCount s' \<le> 1"
proof -
  from assms(1) have t: "t < length (tabs s)"
    by (auto simp: toggleTabPanel_unfold split: if_splits)
  show ?thesis
  proof (cases "aria_expanded (tabs s ! t)")
    case True
    with assms t closeTab_count [of s t s'] show ?thesis
      by (simp add: toggleTabPanel_unfold)
  next
    case False
    show ?thesis
    proof (cases "firstExpanded (tabs s)")
      case None
      then have "expandedCount s = 0" by (simp add: expandedCount_def firstExpanded_None)
      with None False assms t openTab_count [of s t s'] show ?thesis
        by (simp add: toggleTabPanel_unfold)
    next
      case (Some j)
      from firstExpanded_Some [OF Some] have j: "j < length (tabs s)" "aria_expanded (tabs s ! j)"
        by auto
      from assms Some False t obtain s1 where s1: "closeTab s j = Inr s1" "openTab s1 t = Inr s'"
        by (auto simp: toggleTabPanel_unfold split: sum.splits)
      from closeTab_count [OF s1(1) j(1)] j assms(3) have "expandedCount s1 = 0" by simp
      moreover from closeTab_frame [OF s1(1)] t have "t < length (tabs s1)" by (simp add: frame_def)
      ultimately show ?thesis using openTab_count [OF s1(2)] by (simp split: if_splits)
    qed
  qed
qed

lemma expandedCount_map: "expandedCount s = length (filter id (map aria_expanded (tabs s)))"
  by (simp add: expandedCount_def filter_map o_def)

lemma roving_update:
  assumes "map tabindex ts = map (\<lambda>i. if int i = c then 0 else - 1) [0..<length ts]"
    and "0 \<le> k" "k < int (length ts)"
  shows "map tabindex
           ((ts[nat c := a\<lparr>aria_selected := False, tabindex := - 1\<rparr>])
              [nat k := b\<lparr>aria_selected := True, tabindex := 0\<rparr>])
         = map (\<lambda>i. if int i = k then 0 else - 1) [0..<length ts]"
proof (rule nth_equalityI)
  show "length (map tabindex ((ts[nat c := a\<lparr>aria_selected := False, tabindex := - 1\<rparr>])
              [nat k := b\<lparr>aria_selected := True, tabindex := 0\<rparr>]))
        = length (map (\<lambda>i. if int i = k then 0 else - 1) [0..<length ts])"
    by simp
next
  fix i
  assume "i < length (map tabindex ((ts[nat c := a\<lparr>aria_selected := False, tabindex := - 1\<rparr>])
              [nat k := b\<lparr>aria_selected := True, tabindex := 0\<rparr>]))"
  then have i: "i < length ts" by simp
  from assms(1) have "map tabindex ts ! i = map (\<lambda>i. if int i = c then 0 else - 1) [0..<length ts] ! i"
    by simp
  with i have orig: "tabindex (ts ! i) = (if int i = c then 0 else - 1)" by simp
  from i assms(2,3) orig
  show "map tabindex ((ts[nat c := a\<lparr>aria_selected := False, tabindex := - 1\<rparr>])
              [nat k := b\<lparr>aria_selected := True, tabindex := 0\<rparr>]) ! i
        = map (\<lambda>i. if int i = k then 0 else - 1) [0..<length ts] ! i"
    by (cases "i = nat c"; cases "i = nat k") (auto simp: nth_list_update)
qed

lemma updateFocusState_frame:
  "updateFocusState s = Inr s' \<Longrightarrow>
     map aria_expanded (tabs s') = map aria_expanded (tabs s) \<and> panels s' = panels s
     \<and> OPTIONS s' = OPTIONS s \<and> lastTabIndex s' = lastTabIndex s
     \<and> length (tabs s') = length (tabs s) \<and> currentTabIndex s' = currentTabIndex s
     \<and> currentTab s' = Some (nat (currentTabIndex s))
     \<and> 0 \<le> currentTabIndex s \<and> currentTabIndex s < int (length (tabs s))"
  by (auto simp: updateFocusState_def Let_def map_update_same split: option.splits if_splits)

lemma updateFocusState_roving:
  assumes "updateFocusState s = Inr s'"
    and "map tabindex (tabs s) = map (\<lambda>i. if int i = c then 0 else - 1) [0..<length (tabs s)]"
    and "currentTab s = Some (nat c)"
  shows "rovingOK s'"
proof -
  from assms(1) have k: "0 \<le> currentTabIndex s" "currentTabIndex s < int (length (tabs s))"
    by (auto dest: updateFocusState_frame)
  from assms(1,3) k roving_update [OF assms(2) k] show ?thesis
    by (auto simp: updateFocusState_def Let_def rovingOK_def)
qed

lemma updateFocusState_total:
  "currentTab s = Some c \<Longrightarrow> 0 \<le> currentTabIndex s \<Longrightarrow> currentTabIndex s < int (length (tabs s))
   \<Longrightarrow> \<exists>s'. updateFocusState s = Inr s'"
  by (simp add: updateFocusState_def Let_def)

lemma updateFocusState_wf:
  assumes "wellFormed n s0" "tabs s = tabs s0" "currentTab s = currentTab s0"
    "lastTabIndex s = lastTabIndex s0" "updateFocusState s = Inr s'"
  shows "wellFormed n s'"
proof -
  from assms(1-3) have
    "map tabindex (tabs s) = map (\<lambda>i. if int i = currentTabIndex s0 then 0 else - 1) [0..<length (tabs s)]"
    "currentTab s = Some (nat (currentTabIndex s0))"
    by (simp_all add: wellFormed_def rovingOK_def)
  from updateFocusState_roving [OF assms(5) this] have "rovingOK s'" .
  with updateFocusState_frame [OF assms(5)] assms(1,2,4) show ?thesis
    by (simp add: wellFormed_def)
qed

lemma frame_wf: "frame s s' \<Longrightarrow> wellFormed n s \<Longrightarrow> wellFormed n s'"
  by (simp add: frame_def wellFormed_def rovingOK_def)

lemma toggle_wf: "toggleTabPanel s t = Inr s' \<Longrightarrow> wellFormed n s \<Longrightarrow> wellFormed n s'"
  by (blast intro: frame_wf toggle_frame)

lemma preventDefault_wf: "wellFormed n (preventDefault s) = wellFormed n s"
  by (simp add: preventDefault_def wellFormed_def rovingOK_def)

lemma keydown_previous:
  "role_is_tab tg \<Longrightarrow> w = KEYS_left \<or> w = KEYS_up \<Longrightarrow>
   keydown s tg w = updateFocusState (preventDefault s\<lparr>currentTabIndex := previousIndex s\<rparr>)"
  by (simp add: keydown_def Let_def previousIndex_def preventDefault_def)

lemma keydown_next:
  "role_is_tab tg \<Longrightarrow> w = KEYS_right \<or> w = KEYS_down \<Longrightarrow>
   keydown s tg w = updateFocusState (preventDefault s\<lparr>currentTabIndex := nextIndex s\<rparr>)"
  by (auto simp add: keydown_def Let_def nextIndex_def preventDefault_def KEYS_defs)

lemma keydown_end:
  "role_is_tab tg \<Longrightarrow> w = KEYS_end \<Longrightarrow>
   keydown s tg w = updateFocusState (preventDefault s\<lparr>currentTabIndex := lastTabIndex s\<rparr>)"
  by (simp add: keydown_def Let_def preventDefault_def KEYS_defs)

lemma keydown_home:
  "role_is_tab tg \<Longrightarrow> w = KEYS_home \<Longrightarrow>
   keydown s tg w = updateFocusState (s\<lparr>currentTabIndex := 0\<rparr>)"
  by (simp add: keydown_def Let_def KEYS_defs)

lemma keydown_activate:
  "role_is_tab tg \<Longrightarrow> w = KEYS_enter \<or> w = KEYS_space \<Longrightarrow>
   keydown s tg w = (case currentTab s of None \<Rightarrow> Inl TypeError
                     | Some c \<Rightarrow> toggleTabPanel (preventDefault s) c)"
  unfolding keydown_def preventDefault_def by (auto simp add: Let_def KEYS_defs)

lemma keydown_other:
  "\<not> role_is_tab tg \<or> w \<notin> {KEYS_left, KEYS_up, KEYS_right, KEYS_down, KEYS_end, KEYS_home,
       KEYS_enter, KEYS_space} \<Longrightarrow> keydown s tg w = Inr s"
  by (auto simp add: keydown_def)

lemma keydown_cases:
  obtains (ignored) "keydown s tg w = Inr s"
  | (moved) k where "keydown s tg w = updateFocusState (preventDefault s\<lparr>currentTabIndex := k\<rparr>)"
  | (home) "keydown s tg w = updateFocusState (s\<lparr>currentTabIndex := 0\<rparr>)"
  | (activate) "keydown s tg w = (case currentTab s of None \<Rightarrow> Inl TypeError
                     | Some c \<Rightarrow> toggleTabPanel (preventDefault s) c)"
proof (cases "role_is_tab tg")
  case False
  then show ?thesis using ignored keydown_other by blast
next
  case True
  consider "w = KEYS_left \<or> w = KEYS_up" | "w = KEYS_right \<or> w = KEYS_down" | "w = KEYS_end"
    | "w = KEYS_home" | "w = KEYS_enter \<or> w = KEYS_space"
    | "w \<notin> {KEYS_left, KEYS_up, KEYS_right, KEYS_down, KEYS_end, KEYS_home, KEYS_enter, KEYS_space}"
    by blast
  then show ?thesis
  proof cases
    case 1 from keydown_previous [OF True 1] show ?thesis by (rule moved)
  next
    case 2 from keydown_next [OF True 2] show ?thesis by (rule moved)
  next
    case 3 from keydown_end [OF True 3] show ?thesis by (rule moved)
  next
    case 4 from keydown_home [OF True 4] show ?thesis by (rule home)
  next
    case 5 from keydown_activate [OF True 5] show ?thesis by (rule activate)
  next
    case 6 then show ?thesis using ignored keydown_other by blast
  qed
qed

lemma keydown_wf:
  assumes "wellFormed n s" "keydown s tg w = Inr s'"
  shows "wellFormed n s'"
proof (cases rule: keydown_cases [of s tg w])
  case ignored
  with assms show ?thesis by simp
next
  case (moved k)
  with assms(2) have "updateFocusState (preventDefault s\<lparr>currentTabIndex := k\<rparr>) = Inr s'" by simp
  from updateFocusState_wf [OF assms(1) _ _ _ this] show ?thesis by (simp add: preventDefault_def)
next
  case home
  with assms(2) have "updateFocusState (s\<lparr>currentTabIndex := 0\<rparr>) = Inr s'" by simp
  from updateFocusState_wf [OF assms(1) _ _ _ this] show ?thesis by simp
next
  case activate
  with assms(2) obtain c where "toggleTabPanel (preventDefault s) c = Inr s'"
    by (auto split: option.splits)
  from toggle_wf [OF this] assms(1) show ?thesis by (simp add: preventDefault_wf)
qed

lemma mousedown_wf:
  assumes "wellFormed n s" "mousedown s tg = Inr s'"
  shows "wellFormed n s'"
proof (cases "role_is_tab tg")
  case False
  with assms show ?thesis by (simp add: mousedown_def)
next
  case True
  with assms(2) obtain s1 c where s1: "updateFocusState (s\<lparr>currentTabIndex := indexOf_tabs s tg\<rparr>) = Inr s1"
    and tg: "toggleTabPanel s1 c = Inr s'"
    by (auto simp: mousedown_def split: sum.splits option.splits)
  from updateFocusState_wf [OF assms(1) _ _ _ s1] have "wellFormed n s1" by simp
  with tg show ?thesis by (rule toggle_wf)
qed

lemma handle_wf: "wellFormed n s \<Longrightarrow> handle s e = Inr s' \<Longrightarrow> wellFormed n s'"
  by (cases e) (auto intro: keydown_wf mousedown_wf)

lemma run_wf: "wellFormed n s \<Longrightarrow> run s es = Inr s' \<Longrightarrow> wellFormed n s'"
  by (induction es arbitrary: s) (auto split: sum.splits intro: handle_wf)

lemma accordion_wf: "0 < n \<Longrightarrow> wellFormed n (accordion opts n m)"
  by (simp add: accordion_def wellFormed_def rovingOK_def)

lemma updateFocusState_count:
  assumes "updateFocusState s = Inr s'"
  shows "expandedCount s' = expandedCount s \<and> OPTIONS s' = OPTIONS s
         \<and> length (panels s') = length (panels s)"
  using updateFocusState_frame [OF assms] by (simp add: expandedCount_map)

lemma toggle_options:
  "toggleTabPanel s t = Inr s' \<Longrightarrow> OPTIONS s' = OPTIONS s \<and> length (panels s') = length (panels s)"
  by (auto dest: toggle_frame simp: frame_def)

lemma preventDefault_count [simp]:
  "expandedCount (preventDefault s) = expandedCount s"
  "OPTIONS (preventDefault s) = OPTIONS s"
  "panels (preventDefault s) = panels s"
  "tabs (preventDefault s) = tabs s"
  "currentTab (preventDefault s) = currentTab s"
  "currentTabIndex (preventDefault s) = currentTabIndex s"
  "lastTabIndex (preventDefault s) = lastTabIndex s"
  by (simp_all add: preventDefault_def expandedCount_def)

lemma expandedCount_index [simp]:
  "expandedCount (s\<lparr>currentTabIndex := k\<rparr>) = expandedCount s"
  by (simp add: expandedCount_def)

lemma keydown_count:
  assumes "keydown s tg w = Inr s'" "\<not> multiple (OPTIONS s)" "expandedCount s \<le> 1"
  shows "expandedCount s' \<le> 1 \<and> OPTIONS s' = OPTIONS s"
proof (cases rule: keydown_cases [of s tg w])
  case ignored
  with assms show ?thesis by simp
next
  case (moved k)
  with assms(1) have "updateFocusState (preventDefault s\<lparr>currentTabIndex := k\<rparr>) = Inr s'" by simp
  from updateFocusState_count [OF this] assms(3) show ?thesis by simp
next
  case home
  with assms(1) have "updateFocusState (s\<lparr>currentTabIndex := 0\<rparr>) = Inr s'" by simp
  from updateFocusState_count [OF this] assms(3) show ?thesis by simp
next
  case activate
  with assms(1) obtain c where c: "toggleTabPanel (preventDefault s) c = Inr s'"
    by (auto split: option.splits)
  from toggle_count [OF c] toggle_options [OF c] assms(2,3) show ?thesis by simp
qed

lemma mousedown_count:
  assumes "mousedown s tg = Inr s'" "\<not> multiple (OPTIONS s)" "expandedCount s \<le> 1"
  shows "expandedCount s' \<le> 1 \<and> OPTIONS s' = OPTIONS s"
proof (cases "role_is_tab tg")
  case False
  with assms show ?thesis by (simp add: mousedown_def)
next
  case True
  with assms(1) obtain s1 c
    where s1: "updateFocusState (s\<lparr>currentTabIndex := indexOf_tabs s tg\<rparr>) = Inr s1"
      and tg: "toggleTabPanel s1 c = Inr s'"
    by (auto simp: mousedown_def split: sum.splits option.splits)
  from updateFocusState_count [OF s1] assms(2,3)
  have "expandedCount s1 \<le> 1" "\<not> multiple (OPTIONS s1)" "OPTIONS s1 = OPTIONS s" by simp_all
  with toggle_count [OF tg] toggle_options [OF tg] show ?thesis by simp
qed

lemma handle_count:
  "handle s e = Inr s' \<Longrightarrow> \<not> multiple (OPTIONS s) \<Longrightarrow> expandedCount s \<le> 1
   \<Longrightarrow> expandedCount s' \<le> 1 \<and> OPTIONS s' = OPTIONS s"
  by (cases e) (auto dest: keydown_count mousedown_count)

lemma run_count:
  "run s es = Inr s' \<Longrightarrow> \<not> multiple (OPTIONS s) \<Longrightarrow> expandedCount s \<le> 1
   \<Longrightarrow> expandedCount s' \<le> 1"
proof (induction es arbitrary: s)
  case Nil
  then show ?case by simp
next
  case (Cons e es)
  from Cons.prems(1) obtain s1 where s1: "handle s e = Inr s1" "run s1 es = Inr s'"
    by (auto split: sum.splits)
  from handle_count [OF s1(1) Cons.prems(2,3)] Cons.IH [OF s1(2)] Cons.prems(2)
  show ?case by simp
qed

lemma keydown_total:
  assumes "wellFormed n s" "0 < n" "n \<le> length (panels s)"
  shows "\<exists>s'. keydown s tg w = Inr s' \<and> length (panels s') = length (panels s)"
proof -
  from assms(1,2) have wf: "length (tabs s) = n" "lastTabIndex s = int n - 1"
    "0 \<le> currentTabIndex s" "currentTabIndex s < int n"
    "currentTab s = Some (nat (currentTabIndex s))"
    by (simp_all add: wellFormed_def rovingOK_def)
  have upd: "\<exists>s'. updateFocusState x = Inr s' \<and> length (panels s') = length (panels s)"
    if "currentTab x = currentTab s" "tabs x = tabs s" "panels x = panels s"
       "0 \<le> currentTabIndex x" "currentTabIndex x < int n" for x
  proof -
    from that wf updateFocusState_total [of x "nat (currentTabIndex s)"]
    obtain s' where "updateFocusState x = Inr s'" by auto
    with updateFocusState_count [OF this] that show ?thesis by simp
  qed
  show ?thesis
  proof (cases "role_is_tab tg")
    case False
    then show ?thesis by (simp add: keydown_other)
  next
    case True
    consider "w = KEYS_left \<or> w = KEYS_up" | "w = KEYS_right \<or> w = KEYS_down" | "w = KEYS_end"
      | "w = KEYS_home" | "w = KEYS_enter \<or> w = KEYS_space"
      | "w \<notin> {KEYS_left, KEYS_up, KEYS_right, KEYS_down, KEYS_end, KEYS_home, KEYS_enter, KEYS_space}"
      by blast
    then show ?thesis
    proof cases
      case 1
      from wf assms(2) have "0 \<le> previousIndex s" "previousIndex s < int n"
        by (auto simp: previousIndex_def)
      with upd [of "preventDefault s\<lparr>currentTabIndex := previousIndex s\<rparr>"] keydown_previous [OF True 1]
      show ?thesis by simp
    next
      case 2
      from wf assms(2) have "0 \<le> nextIndex s" "nextIndex s < int n"
        by (auto simp: nextIndex_def)
      with upd [of "preventDefault s\<lparr>currentTabIndex := nextIndex s\<rparr>"] keydown_next [OF True 2]
      show ?thesis by simp
    next
      case 3
      from wf assms(2) upd [of "preventDefault s\<lparr>currentTabIndex := lastTabIndex s\<rparr>"]
        keydown_end [OF True 3]
      show ?thesis by simp
    next
      case 4
      from wf assms(2) upd [of "s\<lparr>currentTabIndex := 0\<rparr>"] keydown_home [OF True 4]
      show ?thesis by simp
    next
      case 5
      from wf have "nat (currentTabIndex s) < length (tabs (preventDefault s))" by simp
      moreover from wf assms(3) have "length (tabs (preventDefault s)) \<le> length (panels (preventDefault s))"
        by simp
      ultimately obtain s' where s': "toggleTabPanel (preventDefault s) (nat (currentTabIndex s)) = Inr s'"
        using toggle_total by blast
      with toggle_options [OF s'] keydown_activate [OF True 5] wf show ?thesis by simp
    next
      case 6
      then show ?thesis by (simp add: keydown_other)
    qed
  qed
qed

lemma mousedown_total:
  assumes "wellFormed n s" "n \<le> length (panels s)" "tg = Heading i \<and> i < n \<or> tg = Other"
  shows "\<exists>s'. mousedown s tg = Inr s' \<and> length (panels s') = length (panels s)"
proof (cases tg)
  case Other
  then show ?thesis by (simp add: mousedown_def role_is_tab_def)
next
  case ForeignTab
  with assms(3) show ?thesis by simp
next
  case (Heading j)
  with assms(3) have j: "j < n" by simp
  from assms(1) have wf: "length (tabs s) = n" "currentTab s = Some (nat (currentTabIndex s))"
    by (simp_all add: wellFormed_def)
  from j wf Heading have idx: "indexOf_tabs s tg = int j" by (simp add: indexOf_tabs_def)
  from wf j updateFocusState_total [of "s\<lparr>currentTabIndex := int j\<rparr>" "nat (currentTabIndex s)"]
  obtain s1 where s1: "updateFocusState (s\<lparr>currentTabIndex := int j\<rparr>) = Inr s1" by auto
  from updateFocusState_frame [OF s1] wf j assms(2)
  have f: "currentTab s1 = Some j" "length (tabs s1) = n" "panels s1 = panels s" by simp_all
  with j assms(2) toggle_total [of j s1] obtain s' where s': "toggleTabPanel s1 j = Inr s'" by auto
  from toggle_options [OF s'] s' s1 f idx Heading show ?thesis
    by (simp add: mousedown_def role_is_tab_def)
qed

lemma handle_total:
  assumes "wellFormed n s" "0 < n" "n \<le> length (panels s)" "ownTarget n e"
  shows "\<exists>s'. handle s e = Inr s' \<and> length (panels s') = length (panels s)"
proof (cases e)
  case (Keydown tg w)
  with keydown_total [OF assms(1-3)] show ?thesis by simp
next
  case (Mousedown tg)
  with assms(4) have "tg = Heading (case tg of Heading i \<Rightarrow> i | _ \<Rightarrow> 0)
      \<and> (case tg of Heading i \<Rightarrow> i | _ \<Rightarrow> 0) < n \<or> tg = Other"
    by (cases tg) simp_all
  from mousedown_total [OF assms(1,3) this] Mousedown show ?thesis by simp
qed

lemma run_total:
  "wellFormed n s \<Longrightarrow> 0 < n \<Longrightarrow> n \<le> length (panels s) \<Longrightarrow> list_all (ownTarget n) es
   \<Longrightarrow> \<exists>s'. run s es = Inr s'"
proof (induction es arbitrary: s)
  case Nil
  then show ?case by simp
next
  case (Cons e es)
  from Cons.prems have e: "ownTarget n e" and es: "list_all (ownTarget n) es" by simp_all
  from handle_total [OF Cons.prems(1-3) e] obtain s1
    where s1: "handle s e = Inr s1" "length (panels s1) = length (panels s)" by auto
  from handle_wf [OF Cons.prems(1) s1(1)] have "wellFormed n s1" .
  from Cons.IH [OF this Cons.prems(2) _ es] s1 Cons.prems(3) show ?case by simp
qed

lemma handle_options: "handle s e = Inr s' \<Longrightarrow> OPTIONS s' = OPTIONS s"
proof (cases e)
  case (Keydown tg w)
  assume h: "handle s e = Inr s'"
  show ?thesis
  proof (cases rule: keydown_cases [of s tg w])
    case ignored
    with h Keydown show ?thesis by simp
  next
    case (moved k)
    with h Keydown have "updateFocusState (preventDefault s\<lparr>currentTabIndex := k\<rparr>) = Inr s'" by simp
    from updateFocusState_count [OF this] show ?thesis by simp
  next
    case home
    with h Keydown have "updateFocusState (s\<lparr>currentTabIndex := 0\<rparr>) = Inr s'" by simp
    from updateFocusState_count [OF this] show ?thesis by simp
  next
    case activate
    with h Keydown obtain c where c: "toggleTabPanel (preventDefault s) c = Inr s'"
      by (auto split: option.splits)
    from toggle_options [OF c] show ?thesis by simp
  qed
next
  case (Mousedown tg)
  assume h: "handle s e = Inr s'"
  show ?thesis
  proof (cases "role_is_tab tg")
    case False
    with h Mousedown show ?thesis by (simp add: mousedown_def)
  next
    case True
    with h Mousedown obtain s1 c
      where s1: "updateFocusState (s\<lparr>currentTabIndex := indexOf_tabs s tg\<rparr>) = Inr s1"
        and tg: "toggleTabPanel s1 c = Inr s'"
      by (auto simp: mousedown_def split: sum.splits option.splits)
    from updateFocusState_count [OF s1] toggle_options [OF tg] show ?thesis by simp
  qed
qed

lemma run_options: "run s es = Inr s' \<Longrightarrow> OPTIONS s' = OPTIONS s"
  by (induction es arbitrary: s) (auto split: sum.splits dest: handle_options)

lemma rovingOK_tabStops:
  assumes "rovingOK s"
  shows "tabStops s = 1"
proof -
  let ?k = "currentTabIndex s"
  from assms have k: "0 \<le> ?k" "?k < int (length (tabs s))"
    and m: "map tabindex (tabs s) = map (\<lambda>i. if int i = ?k then 0 else - 1) [0..<length (tabs s)]"
    by (simp_all add: rovingOK_def)
  have pt: "tabindex (tabs s ! i) = (if int i = ?k then 0 else - 1)" if "i < length (tabs s)" for i
  proof -
    from m have "map tabindex (tabs s) ! i = map (\<lambda>i. if int i = ?k then 0 else - 1) [0..<length (tabs s)] ! i"
      by simp
    with that show ?thesis by simp
  qed
  have "{i. i < length (tabs s) \<and> tabindex (tabs s ! i) = 0} = {nat ?k}"
    using k pt by (auto split: if_splits)
  then show ?thesis by (simp add: tabStops_def length_filter_conv_card)
qed

section \<open>Dialogs: lemmas\<close>

lemma ancestorWalk_iff: "ancestorWalk d el ps = d \<longleftrightarrow> d \<in> set (el # ps)"
  by (induction ps arbitrary: el) auto

lemma dialog_open_facts:
  assumes "\<not> open_attr s"
  shows "open_attr (dialog_open s)" "click_listener (dialog_open s)" "keydown_listener (dialog_open s)"
    "previousActiveElement (dialog_open s) = Some (activeElement s)"
    "dialog_el (dialog_open s) = dialog_el s"
    "root (dialog_open s) = root s"
    "OPTIONS_modeless (dialog_open s) = OPTIONS_modeless s"
    "dispatched (dialog_open s) = dispatched s @
       [\<lparr>ev_name = ''modal-opened'', ev_bubbles = False, ev_detail = Some (dialog_el s)\<rparr>]"
    "focusable (dialog_open s) = focusable s"
    "body_children (dialog_open s) =
       (if OPTIONS_modeless s then body_children s else setInert (root s) True (body_children s))"
  using assms by (simp_all add: dialog_open_def focus_def Let_def split: option.splits)

lemma dialog_close_facts:
  assumes "open_attr s" "previousActiveElement s = Some p"
  shows "\<exists>s'. dialog_close s = Inr s' \<and> \<not> open_attr s' \<and> \<not> click_listener s'
           \<and> \<not> keydown_listener s'
           \<and> activeElement s' = (if p \<in> set (focusable s) then p else activeElement s)
           \<and> previousActiveElement s' = None
           \<and> dialog_el s' = dialog_el s
           \<and> dispatched s' = dispatched s @
               [\<lparr>ev_name = ''modal-closed'', ev_bubbles = False, ev_detail = Some (dialog_el s)\<rparr>]
           \<and> body_children s' =
               (if OPTIONS_modeless s then body_children s
                else setInert (root s) False (body_children s))"
  using assms by (simp add: dialog_close_def focus_def Let_def)

lemma build_show_facts:
  assumes "b_aria_hidden b"
  shows "\<not> b_aria_hidden (build_show b)" "b_keydown_listener (build_show b)"
    "b_mousedown_listener (build_show b)"
    "b_lastFocusedElement (build_show b) = Some (b_activeElement b)"
    "b_dialog (build_show b) = b_dialog b" "b_modal (build_show b) = b_modal b"
    "b_dispatched (build_show b) = b_dispatched b"
    "b_nodes (build_show b) = b_nodes b"
  using assms by (simp_all add: build_show_def build_focus_def Let_def split: option.splits)


text \<open>The page \<open>inertPage\<close> is what enhancement of a plain container produces.\<close>

lemma inertPage_enhanced:
  "dialog \<lparr>has_modeless = False, has_no_esc = False, c_root = \<lparr>el_id = 2, el_inert = False\<rparr>,
           c_dialog = Some 3, c_has_title = True, c_has_open = False, c_autofocus = None\<rparr>
          \<lparr>page_children = [\<lparr>el_id = 1, el_inert = True\<rparr>], page_focusable = [1],
           page_activeElement = 0, page_overflow = []\<rparr>
     = Inr inertPage"
  by (simp add: dialog_def inertPage_def)

text \<open>
  While a modal dialog is open every child of the body other than the root is inert;
  after \<^verbatim>\<open>close\<close> none of them is, whatever it was before.
\<close>

lemma modal_open_siblings_inert:
  "\<not> open_attr s \<Longrightarrow> \<not> OPTIONS_modeless s \<Longrightarrow>
   list_all (\<lambda>ch. el_id ch = root s \<or> el_inert ch) (body_children (dialog_open s))"
  by (auto simp: dialog_open_facts setInert_def list_all_iff)

lemma modal_close_clears_inert:
  assumes "open_attr s" "\<not> OPTIONS_modeless s" "dialog_close s = Inr s'"
  shows "list_all (\<lambda>ch. el_id ch = root s \<or> \<not> el_inert ch) (body_children s')"
proof -
  from assms(3) obtain p where "previousActiveElement s = Some p"
    using assms(1) by (auto simp: dialog_close_def focus_def Let_def split: option.splits if_splits)
  from dialog_close_facts [OF assms(1) this] assms(2,3) show ?thesis
    by (auto simp: setInert_def list_all_iff)
qed

text \<open>
  The built dialog on \<open>builtPage\<close>: while it is shown every element outside has
  \<^verbatim>\<open>tabindex="-1"\<close>; after the cycle the elements outside have their former attribute,
  and the descendant of the dialog has lost its own.
\<close>

lemma built_cycle_example:
  "tabindexes (runTimers (build_show builtPage)) =
     Some [Some ''-1'', Some ''-1'', Some ''-1'', Some ''-1'', Some ''0'']
   \<and> tabindexes (showCloseCycle builtPage) = Some [None, Some ''0'', Some ''-1'', Some ''-1'', None]"
  by code_simp

section \<open>The claims\<close>

text \<open>
  C1. Modal dialog with inert siblings: a sibling that was inert before \<^verbatim>\<open>open()\<close> is
  inert while the dialog is open, and is not inert after \<^verbatim>\<open>close()\<close>: its state before
  \<^verbatim>\<open>open()\<close> is not restored.
\<close>

theorem inert_not_restored:
  "inertFlags (Inr (dialog_open inertPage)) = Some [(1, True), (2, False)]
   \<and> inertFlags (dialog_close (dialog_open inertPage)) = Some [(1, False), (2, False)]"
  by (simp add: inertFlags_def inertPage_def dialog_open_def dialog_close_def setInert_def focus_def Let_def)

text \<open>
  C2, as stated, at an accordion without \<^verbatim>\<open>multiple\<close> and with \<^verbatim>\<open>expanded\<close>: of three
  panels, all open after enhancement, a pointer-down on the first heading leaves two open.
\<close>

theorem expanded_default_counterexample:
  "expandedFlags (run (accordion \<lparr>expanded = True, multiple = False, wrapFocus = False\<rparr> 3 3)
                      [Mousedown (Heading 0)]) = Some [False, True, True]"
  by code_simp

text \<open>
  C2, amended. For an accordion whose container has neither \<^verbatim>\<open>multiple\<close> nor
  \<^verbatim>\<open>expanded\<close>: after every sequence of events that completes at most one panel is
  expanded; every sequence of events on the accordion's own headings completes (given a
  panel for each heading); and opening a collapsed heading while another panel is open
  first collapses that panel, then expands the heading's own.
\<close>

theorem at_most_one_open:
  assumes "\<not> multiple opts" and "\<not> expanded opts"
  shows "(run (accordion opts n m) evs = Inr s' \<longrightarrow> expandedCount s' \<le> 1)
       \<and> (0 < n \<and> n \<le> m \<and> list_all (ownTarget n) evs \<longrightarrow>
            (\<exists>s. run (accordion opts n m) evs = Inr s))
       \<and> (\<not> multiple (OPTIONS s) \<and> t < length (tabs s) \<and> length (tabs s) \<le> length (panels s)
            \<and> \<not> aria_expanded (tabs s ! t) \<and> firstExpanded (tabs s) = Some j \<longrightarrow>
            (\<exists>s2. toggleTabPanel s t = Inr s2
               \<and> trace s2 = trace s @
                    [SetExpanded j False, SetHidden j True, notify ''accordion-collapsed'' j,
                     SetExpanded t True, SetHidden t False, notify ''accordion-expanded'' t]
               \<and> \<not> aria_expanded (tabs s2 ! j) \<and> aria_expanded (tabs s2 ! t)))"
proof -
  have c0: "expandedCount (accordion opts n m) = 0" "\<not> multiple (OPTIONS (accordion opts n m))"
    using assms by (simp_all add: accordion_def expandedCount_def filter_map o_def)
  have A: "expandedCount s' \<le> 1" if "run (accordion opts n m) evs = Inr s'"
    using run_count [OF that c0(2)] c0(1) by simp
  have B: "\<exists>s. run (accordion opts n m) evs = Inr s"
    if "0 < n" "n \<le> m" "list_all (ownTarget n) evs"
    using run_total [OF accordion_wf [OF that(1)] that(1) _ that(3)] that(2)
    by (simp add: accordion_def)
  have C: "\<exists>s2. toggleTabPanel s t = Inr s2
               \<and> trace s2 = trace s @
                    [SetExpanded j False, SetHidden j True, notify ''accordion-collapsed'' j,
                     SetExpanded t True, SetHidden t False, notify ''accordion-expanded'' t]
               \<and> \<not> aria_expanded (tabs s2 ! j) \<and> aria_expanded (tabs s2 ! t)"
    if "\<not> multiple (OPTIONS s)" "t < length (tabs s)" "length (tabs s) \<le> length (panels s)"
       "\<not> aria_expanded (tabs s ! t)" "firstExpanded (tabs s) = Some j"
  proof -
    from firstExpanded_Some [OF that(5)] have j: "j < length (tabs s)" "aria_expanded (tabs s ! j)"
      by auto
    with that(4) have "j \<noteq> t" by auto
    with that j show ?thesis
      by (simp add: toggleTabPanel_unfold closeTab_def openTab_def)
  qed
  from A B C show ?thesis by blast
qed

theorem at_most_one_open_witness:
  "\<not> multiple \<lparr>expanded = False, multiple = False, wrapFocus = False\<rparr>
   \<and> \<not> expanded \<lparr>expanded = False, multiple = False, wrapFocus = False\<rparr>
   \<and> list_all (ownTarget 3) [Mousedown (Heading 0), Mousedown (Heading 1)]
   \<and> (\<exists>s. run (accordion \<lparr>expanded = False, multiple = False, wrapFocus = False\<rparr> 3 3)
              [Mousedown (Heading 0), Mousedown (Heading 1)] = Inr s
          \<and> expandedCount s \<le> 1)
   \<and> firstExpanded [\<lparr>aria_expanded = True, aria_selected = True, tabindex = 0\<rparr>,
                     \<lparr>aria_expanded = False, aria_selected = False, tabindex = - 1\<rparr>] = Some 0
   \<and> (\<exists>s2. toggleTabPanel
               ((accordion \<lparr>expanded = False, multiple = False, wrapFocus = False\<rparr> 2 2)
                  \<lparr>tabs := [\<lparr>aria_expanded = True, aria_selected = True, tabindex = 0\<rparr>,
                            \<lparr>aria_expanded = False, aria_selected = False, tabindex = - 1\<rparr>]\<rparr>) 1
             = Inr s2
          \<and> trace s2 = [SetExpanded 0 False, SetHidden 0 True, notify ''accordion-collapsed'' 0,
                         SetExpanded 1 True, SetHidden 1 False, notify ''accordion-expanded'' 1])"
proof -
  let ?o = "\<lparr>expanded = False, multiple = False, wrapFocus = False\<rparr>"
  let ?evs = "[Mousedown (Heading 0), Mousedown (Heading 1)]"
  let ?ts = "[\<lparr>aria_expanded = True, aria_selected = True, tabindex = 0\<rparr>,
              \<lparr>aria_expanded = False, aria_selected = False, tabindex = - 1\<rparr>]"
  let ?S = "(accordion ?o 2 2)\<lparr>tabs := ?ts\<rparr>"
  have h: "\<not> multiple ?o" "\<not> expanded ?o" "(0::nat) < 3 \<and> (3::nat) \<le> 3 \<and> list_all (ownTarget 3) ?evs"
    by simp_all
  from at_most_one_open [OF h(1,2), of 3 3 ?evs] h(3) obtain s
    where s: "run (accordion ?o 3 3) ?evs = Inr s" by blast
  from at_most_one_open [OF h(1,2), of 3 3 ?evs s] s have c: "expandedCount s \<le> 1" by blast
  have g: "\<not> multiple (OPTIONS ?S) \<and> 1 < length (tabs ?S) \<and> length (tabs ?S) \<le> length (panels ?S)
      \<and> \<not> aria_expanded (tabs ?S ! 1) \<and> firstExpanded (tabs ?S) = Some 0"
    by (simp add: accordion_def)
  have tr: "trace ?S = []" by (simp add: accordion_def)
  from at_most_one_open [OF h(1,2), of _ _ _ _ ?S 1 0] g obtain s2
    where "toggleTabPanel ?S 1 = Inr s2"
      "trace s2 = trace ?S @
         [SetExpanded 0 False, SetHidden 0 True, notify ''accordion-collapsed'' 0,
          SetExpanded 1 True, SetHidden 1 False, notify ''accordion-expanded'' 1]"
    by blast
  with tr have "\<exists>s2. toggleTabPanel ?S 1 = Inr s2
      \<and> trace s2 = [SetExpanded 0 False, SetHidden 0 True, notify ''accordion-collapsed'' 0,
                     SetExpanded 1 True, SetHidden 1 False, notify ''accordion-expanded'' 1]"
    by simp
  moreover have "firstExpanded ?ts = Some 0" by simp
  ultimately show ?thesis using s c h by blast
qed




text \<open>
  C4. In an accordion with \<open>n\<close> headings, in any state it reaches: with wrap-focus a
  previous command (left/up) at index 0 moves the current index to \<open>n - 1\<close> and a next
  command (right/down) at index \<open>n - 1\<close> moves it to 0; without wrap-focus the index
  stays at 0 and at \<open>n - 1\<close>.
\<close>

theorem wrap_focus_boundaries:
  assumes "run (accordion opts n m) evs = Inr s" and "0 < n" and "role_is_tab tg"
  shows "(currentTabIndex s = 0 \<and> (w = KEYS_left \<or> w = KEYS_up) \<longrightarrow>
            (\<exists>s'. keydown s tg w = Inr s'
               \<and> currentTabIndex s' = (if wrapFocus opts then int n - 1 else 0)))
       \<and> (currentTabIndex s = int n - 1 \<and> (w = KEYS_right \<or> w = KEYS_down) \<longrightarrow>
            (\<exists>s'. keydown s tg w = Inr s'
               \<and> currentTabIndex s' = (if wrapFocus opts then 0 else int n - 1)))"
proof -
  from run_wf [OF accordion_wf [OF assms(2)] assms(1)] have wfs: "wellFormed n s" .
  then have wf: "length (tabs s) = n" "lastTabIndex s = int n - 1"
    "currentTab s = Some (nat (currentTabIndex s))"
    by (simp_all add: wellFormed_def)
  from run_options [OF assms(1)] have opts: "OPTIONS s = opts" by (simp add: accordion_def)
  have upd: "\<exists>s'. updateFocusState (preventDefault s\<lparr>currentTabIndex := k\<rparr>) = Inr s'
                \<and> currentTabIndex s' = k" if "0 \<le> k" "k < int n" for k
  proof -
    from that wf updateFocusState_total [of "preventDefault s\<lparr>currentTabIndex := k\<rparr>" "nat (currentTabIndex s)"]
    obtain s' where s': "updateFocusState (preventDefault s\<lparr>currentTabIndex := k\<rparr>) = Inr s'" by auto
    from updateFocusState_frame [OF s'] s' show ?thesis by simp
  qed
  have prev: "\<exists>s'. keydown s tg w = Inr s' \<and> currentTabIndex s' = (if wrapFocus opts then int n - 1 else 0)"
    if "currentTabIndex s = 0" "w = KEYS_left \<or> w = KEYS_up"
  proof -
    from that wf opts have "previousIndex s = (if wrapFocus opts then int n - 1 else 0)"
      by (simp add: previousIndex_def)
    with upd [of "previousIndex s"] assms(2) keydown_previous [OF assms(3) that(2)]
    show ?thesis by (auto split: if_splits)
  qed
  have nxt: "\<exists>s'. keydown s tg w = Inr s' \<and> currentTabIndex s' = (if wrapFocus opts then 0 else int n - 1)"
    if "currentTabIndex s = int n - 1" "w = KEYS_right \<or> w = KEYS_down"
  proof -
    from that wf opts have "nextIndex s = (if wrapFocus opts then 0 else int n - 1)"
      by (simp add: nextIndex_def)
    with upd [of "nextIndex s"] assms(2) keydown_next [OF assms(3) that(2)]
    show ?thesis by (auto split: if_splits)
  qed
  from prev nxt show ?thesis by blast
qed

theorem wrap_focus_boundaries_witness:
  "(0::nat) < 3 \<and> role_is_tab (Heading 0) \<and> role_is_tab (Heading 2)
   \<and> (\<exists>s'. keydown (accordion \<lparr>expanded = False, multiple = False, wrapFocus = True\<rparr> 3 3)
              (Heading 0) KEYS_left = Inr s' \<and> currentTabIndex s' = 2)
   \<and> (\<exists>s. run (accordion \<lparr>expanded = False, multiple = False, wrapFocus = True\<rparr> 3 3)
              [Keydown (Heading 0) KEYS_end] = Inr s
          \<and> currentTabIndex s = 2
          \<and> (\<exists>s'. keydown s (Heading 2) KEYS_right = Inr s' \<and> currentTabIndex s' = 0))"
proof -
  let ?o = "\<lparr>expanded = False, multiple = False, wrapFocus = True\<rparr>"
  let ?A = "accordion ?o 3 3"
  have h: "(0::nat) < 3" "role_is_tab (Heading 0)" "role_is_tab (Heading 2)"
    by (simp_all add: role_is_tab_def)
  have r0: "run ?A [] = Inr ?A" by simp
  have i0: "currentTabIndex ?A = 0" by (simp add: accordion_def)
  from wrap_focus_boundaries [OF r0 h(1,2), of KEYS_left] i0
  have p: "\<exists>s'. keydown ?A (Heading 0) KEYS_left = Inr s' \<and> currentTabIndex s' = 2"
    by simp
  have "keydown ?A (Heading 0) KEYS_end
        = updateFocusState (preventDefault ?A\<lparr>currentTabIndex := lastTabIndex ?A\<rparr>)"
    using h(2) by (rule keydown_end) simp
  then obtain s where s: "keydown ?A (Heading 0) KEYS_end = Inr s" "currentTabIndex s = 2"
    by (simp add: updateFocusState_def accordion_def preventDefault_def Let_def)
  then have r1: "run ?A [Keydown (Heading 0) KEYS_end] = Inr s" by simp
  from wrap_focus_boundaries [OF r1 h(1,3), of KEYS_right] s(2)
  have "\<exists>s'. keydown s (Heading 2) KEYS_right = Inr s' \<and> currentTabIndex s' = 0"
    by simp
  with r1 s(2) p h show ?thesis by blast
qed

text \<open>
  C5. In an accordion with \<open>n > 0\<close> headings, after every sequence of events that
  completes, exactly one heading is a tab stop (tabindex 0, all others -1) and it is the
  heading at the current index; every sequence of events on the accordion's own headings
  completes (given a panel for each heading).
\<close>

theorem single_tab_stop:
  assumes "0 < n"
  shows "(run (accordion opts n m) evs = Inr s' \<longrightarrow>
            rovingOK s' \<and> tabStops s' = 1 \<and> currentTab s' = Some (nat (currentTabIndex s')))
       \<and> (n \<le> m \<and> list_all (ownTarget n) evs \<longrightarrow> (\<exists>s. run (accordion opts n m) evs = Inr s))"
proof -
  have wf0: "wellFormed n (accordion opts n m)" using assms by (rule accordion_wf)
  have "rovingOK s' \<and> tabStops s' = 1 \<and> currentTab s' = Some (nat (currentTabIndex s'))"
    if "run (accordion opts n m) evs = Inr s'"
    using run_wf [OF wf0 that] rovingOK_tabStops [of s'] by (simp add: wellFormed_def)
  moreover have "\<exists>s. run (accordion opts n m) evs = Inr s"
    if "n \<le> m" "list_all (ownTarget n) evs"
    using run_total [OF wf0 assms _ that(2)] that(1) by (simp add: accordion_def)
  ultimately show ?thesis by blast
qed

theorem single_tab_stop_witness:
  "(0::nat) < 3 \<and> (3::nat) \<le> 3
   \<and> list_all (ownTarget 3) [Mousedown (Heading 1), Keydown (Heading 1) KEYS_right]
   \<and> (\<exists>s. run (accordion \<lparr>expanded = False, multiple = False, wrapFocus = False\<rparr> 3 3)
              [Mousedown (Heading 1), Keydown (Heading 1) KEYS_right] = Inr s
          \<and> rovingOK s \<and> tabStops s = 1)"
proof -
  let ?a = "accordion \<lparr>expanded = False, multiple = False, wrapFocus = False\<rparr> 3 3"
  let ?evs = "[Mousedown (Heading 1), Keydown (Heading 1) KEYS_right]"
  have h: "(0::nat) < 3" "(3::nat) \<le> 3" "list_all (ownTarget 3) ?evs" by simp_all
  from single_tab_stop [OF h(1), of _ 3 ?evs] h(2,3) obtain s where s: "run ?a ?evs = Inr s"
    by blast
  from single_tab_stop [OF h(1), of _ 3 ?evs s] s have "rovingOK s \<and> tabStops s = 1" by blast
  with s h show ?thesis by blast
qed

text \<open>
  C6. A dialog whose container carries the documented \<^verbatim>\<open>no-esc\<close> attribute, opened, is
  closed by an escape keypress all the same: the attribute is never read.
\<close>

theorem no_esc_ignored:
  "isOpen (enhanceOpenDispatch
      \<lparr>has_modeless = False, has_no_esc = True, c_root = \<lparr>el_id = 2, el_inert = False\<rparr>,
       c_dialog = Some 3, c_has_title = True, c_has_open = False, c_autofocus = None\<rparr>
      \<lparr>page_children = [\<lparr>el_id = 1, el_inert = False\<rparr>, \<lparr>el_id = 2, el_inert = False\<rparr>],
       page_focusable = [1], page_activeElement = 1, page_overflow = []\<rparr>
      \<lparr>e_type = ''keydown'', e_which = 27, e_target = 3, e_ancestors = [2, 0]\<rparr>) = Some False"
  by (simp add: isOpen_def enhanceOpenDispatch_def dialog_def dialog_open_def dialog_close_def
      document_dispatch_def checkCloseDialog_def setInert_def focus_def Let_def KEYS_esc_def)

text \<open>
  C7, as stated, at the built dialog: a pointer-down outside an open modal dialog is
  cancelled and the dialog stays open.
\<close>

theorem built_outside_mousedown_counterexample:
  "build_dispatch (build_show builtPage)
      \<lparr>e_type = ''mousedown'', e_which = 1, e_target = 0, e_ancestors = []\<rparr>
     = Inr (build_show builtPage, True)
   \<and> b_aria_hidden (build_show builtPage) = False"
  by (simp add: build_dispatch_def build_show_def clickHandler_def builtPage_def build_dialog_def build_focus_def Let_def)

text \<open>
  C7, amended. In the dialog with inert siblings, a click on an open dialog or a
  descendant of it (found by the walk up the ancestor chain) leaves it open, and a click
  anywhere else closes it.  In the built dialog a pointer-down never closes an open
  dialog: it is cancelled when the dialog is modal and the target lies outside, and
  ignored otherwise.
\<close>

theorem outside_click_closes:
  "(\<not> open_attr s \<and> e_type e = ''click'' \<longrightarrow>
      (if dialog_el s \<in> set (e_target e # e_ancestors e)
       then document_dispatch (dialog_open s) e = Inr (dialog_open s) \<and> open_attr (dialog_open s)
       else (\<exists>s'. document_dispatch (dialog_open s) e = Inr s' \<and> \<not> open_attr s')))
   \<and> (b_aria_hidden b \<and> e_type e = ''mousedown'' \<longrightarrow>
      \<not> b_aria_hidden (build_show b)
      \<and> build_dispatch (build_show b) e =
          Inr (build_show b, b_modal b \<and> b_dialog b \<notin> set (e_target e # e_ancestors e)))"
proof -
  have A: "if dialog_el s \<in> set (e_target e # e_ancestors e)
       then document_dispatch (dialog_open s) e = Inr (dialog_open s) \<and> open_attr (dialog_open s)
       else (\<exists>s'. document_dispatch (dialog_open s) e = Inr s' \<and> \<not> open_attr s')"
    if c: "\<not> open_attr s" "e_type e = ''click''"
  proof (cases "dialog_el s \<in> set (e_target e # e_ancestors e)")
    case True
    note o = dialog_open_facts [OF c(1)]
    from True have "ancestorWalk (dialog_el s) (e_target e) (e_ancestors e) = dialog_el s"
      by (simp only: ancestorWalk_iff)
    with c(2) o(1,2,5) True show ?thesis
      by (simp add: document_dispatch_def checkCloseDialog_def Let_def)
  next
    case False
    note o = dialog_open_facts [OF c(1)]
    from False have "ancestorWalk (dialog_el s) (e_target e) (e_ancestors e) \<noteq> dialog_el s"
      by (simp only: ancestorWalk_iff not_False_eq_True)
    with c(2) o(2,5) have "document_dispatch (dialog_open s) e = dialog_close (dialog_open s)"
      by (simp add: document_dispatch_def checkCloseDialog_def Let_def)
    with dialog_close_facts [OF o(1) o(4)] False show ?thesis by auto
  qed
  have B: "\<not> b_aria_hidden (build_show b)
      \<and> build_dispatch (build_show b) e =
          Inr (build_show b, b_modal b \<and> b_dialog b \<notin> set (e_target e # e_ancestors e))"
    if c: "b_aria_hidden b" "e_type e = ''mousedown''"
  proof -
    note o = build_show_facts [OF c(1)]
    have "clickHandler (build_show b) e = (b_modal b \<and> b_dialog b \<notin> set (e_target e # e_ancestors e))"
      using ancestorWalk_iff [of "b_dialog b" "e_target e" "e_ancestors e"] o(5,6)
      by (simp add: clickHandler_def Let_def)
    with c(2) o(1,3) show ?thesis by (simp add: build_dispatch_def)
  qed
  from A B show ?thesis by blast
qed

theorem outside_click_closes_witness:
  "\<not> open_attr inertPage \<and> b_aria_hidden builtPage
   \<and> (\<exists>s'. document_dispatch (dialog_open inertPage)
              \<lparr>e_type = ''click'', e_which = 1, e_target = 1, e_ancestors = [0]\<rparr> = Inr s'
          \<and> \<not> open_attr s')
   \<and> document_dispatch (dialog_open inertPage)
        \<lparr>e_type = ''click'', e_which = 1, e_target = 5, e_ancestors = [3, 2, 0]\<rparr>
      = Inr (dialog_open inertPage)
   \<and> build_dispatch (build_show builtPage)
        \<lparr>e_type = ''mousedown'', e_which = 1, e_target = 4, e_ancestors = [3]\<rparr>
      = Inr (build_show builtPage, False)"
  using outside_click_closes
    [of inertPage "\<lparr>e_type = ''click'', e_which = 1, e_target = 1, e_ancestors = [0]\<rparr>" builtPage]
    outside_click_closes
    [of inertPage "\<lparr>e_type = ''click'', e_which = 1, e_target = 5, e_ancestors = [3, 2, 0]\<rparr>" builtPage]
    outside_click_closes
    [of inertPage "\<lparr>e_type = ''mousedown'', e_which = 1, e_target = 4, e_ancestors = [3]\<rparr>" builtPage]
  by (simp add: inertPage_def builtPage_def build_dialog_def)






text \<open>
  C10. In the dialog with inert siblings, \<^verbatim>\<open>open()\<close> opens the dialog and registers the
  handler for keydown; while the dialog is open, a keydown whose key is not escape and
  whose target is neither the dialog nor a descendant of it closes the dialog.
\<close>

theorem keydown_outside_closes:
  assumes "\<not> open_attr s" and "e_type e = ''keydown''" and "e_which e \<noteq> KEYS_esc"
    and "dialog_el s \<notin> set (e_target e # e_ancestors e)"
  shows "open_attr (dialog_open s) \<and> keydown_listener (dialog_open s)
         \<and> (\<exists>s'. document_dispatch (dialog_open s) e = Inr s' \<and> \<not> open_attr s')"
proof -
  note o = dialog_open_facts [OF assms(1)]
  from assms(4) have "ancestorWalk (dialog_el s) (e_target e) (e_ancestors e) \<noteq> dialog_el s"
    by (simp only: ancestorWalk_iff not_False_eq_True)
  with assms(2,3) o(3,5) have "document_dispatch (dialog_open s) e = dialog_close (dialog_open s)"
    by (simp add: document_dispatch_def checkCloseDialog_def Let_def)
  with dialog_close_facts [OF o(1) o(4)] o(1,3) show ?thesis by auto
qed

theorem keydown_outside_closes_witness:
  "\<not> open_attr inertPage \<and> (65::nat) \<noteq> KEYS_esc \<and> dialog_el inertPage \<notin> set [1, 0]
   \<and> open_attr (dialog_open inertPage) \<and> keydown_listener (dialog_open inertPage)
   \<and> (\<exists>s'. document_dispatch (dialog_open inertPage)
              \<lparr>e_type = ''keydown'', e_which = 65, e_target = 1, e_ancestors = [0]\<rparr> = Inr s'
          \<and> \<not> open_attr s')"
  using keydown_outside_closes
    [of inertPage "\<lparr>e_type = ''keydown'', e_which = 65, e_target = 1, e_ancestors = [0]\<rparr>"]
  by (simp add: inertPage_def KEYS_esc_def)

end
